theory Spec2Isabelle
  imports Complex_Main "HOL-Library.AList"
begin

section \<open>Operation recorder: \<^verbatim>\<open>tv/core/performance_monitor.py\<close>\<close>

text \<open>
  Durations and metric values are Python floats; they are modelled as reals. Timestamps
  (\<^verbatim>\<open>datetime.now()\<close>) are integers on some fixed scale and are passed in by the
  caller of each operation that reads the clock. A \<^verbatim>\<open>deque(maxlen=n)\<close> is a list that
  drops from the left when an append makes it longer than \<open>n\<close>.
\<close>

definition deque_append :: "nat \<Rightarrow> 'a list \<Rightarrow> 'a \<Rightarrow> 'a list" where
  "deque_append maxlen xs x = (let ys = xs @ [x] in drop (length ys - maxlen) ys)"

record PerformanceMetric =
  m_name :: string
  m_value :: real
  m_unit :: string
  m_timestamp :: int
  m_tags :: "(string \<times> string) list"

text \<open>\<^verbatim>\<open>min_time\<close> starts at \<^verbatim>\<open>float('inf')\<close>: \<open>None\<close> stands for infinity.\<close>

record OperationStats =
  os_name :: string
  os_count :: int
  os_total_time :: real
  os_min_time :: "real option"
  os_max_time :: real
  os_success_count :: int
  os_error_count :: int
  os_recent_times :: "real list"

definition OperationStats_new :: "string \<Rightarrow> OperationStats" where
  "OperationStats_new n =
     \<lparr>os_name = n, os_count = 0, os_total_time = 0, os_min_time = None, os_max_time = 0,
      os_success_count = 0, os_error_count = 0, os_recent_times = []\<rparr>"

definition add_timing :: "real \<Rightarrow> bool \<Rightarrow> OperationStats \<Rightarrow> OperationStats" where
  "add_timing duration success st =
     (let st1 = st\<lparr>os_count := os_count st + 1,
                   os_total_time := os_total_time st + duration,
                   os_min_time := (case os_min_time st of None \<Rightarrow> Some duration
                                   | Some m \<Rightarrow> Some (min m duration)),
                   os_max_time := max (os_max_time st) duration,
                   os_recent_times := deque_append 100 (os_recent_times st) duration\<rparr>
      in if success then st1\<lparr>os_success_count := os_success_count st1 + 1\<rparr>
         else st1\<lparr>os_error_count := os_error_count st1 + 1\<rparr>)"

definition average_time :: "OperationStats \<Rightarrow> real" where
  "average_time st = (if os_count st > 0 then os_total_time st / real_of_int (os_count st) else 0)"

definition recent_average :: "OperationStats \<Rightarrow> real" where
  "recent_average st =
     (if os_recent_times st \<noteq> [] then sum_list (os_recent_times st) / real (length (os_recent_times st))
      else 0)"

definition success_rate :: "OperationStats \<Rightarrow> real" where
  "success_rate st =
     (if os_count st > 0 then real_of_int (os_success_count st) / real_of_int (os_count st) else 0)"

text \<open>The dictionary built by \<^verbatim>\<open>OperationStats.to_dict\<close>, one field per key.\<close>

record stats_dict =
  d_name :: string
  d_count :: int
  d_total_time :: real
  d_average_time :: real
  d_min_time :: real
  d_max_time :: real
  d_recent_average :: real
  d_success_count :: int
  d_error_count :: int
  d_success_rate :: real

definition stats_to_dict :: "OperationStats \<Rightarrow> stats_dict" where
  "stats_to_dict st =
     \<lparr>d_name = os_name st, d_count = os_count st, d_total_time = os_total_time st,
      d_average_time = average_time st,
      d_min_time = (case os_min_time st of None \<Rightarrow> 0 | Some m \<Rightarrow> m),
      d_max_time = os_max_time st, d_recent_average = recent_average st,
      d_success_count = os_success_count st, d_error_count = os_error_count st,
      d_success_rate = success_rate st\<rparr>"

text \<open>
  The configuration dictionary, as far as \<^verbatim>\<open>PerformanceMonitor.__init__\<close> reads it:
  an absent key is \<open>None\<close> and takes the default of \<^verbatim>\<open>config.get\<close>.
\<close>

record monitor_config =
  performance_monitoring :: "bool option"
  collect_interval :: "nat option"
  retention_hours :: "nat option"
  max_metrics :: "nat option"

record PerformanceMonitor =
  enabled :: bool
  pm_collect_interval :: nat
  pm_retention_hours :: nat
  pm_max_metrics :: nat
  metrics :: "PerformanceMetric list"
  operation_stats :: "(string \<times> OperationStats) list"
  collection_started :: bool

definition PerformanceMonitor_init :: "monitor_config \<Rightarrow> PerformanceMonitor" where
  "PerformanceMonitor_init config =
     (let en = (case performance_monitoring config of None \<Rightarrow> True | Some b \<Rightarrow> b) in
      \<lparr>enabled = en,
       pm_collect_interval = (case collect_interval config of None \<Rightarrow> 60 | Some n \<Rightarrow> n),
       pm_retention_hours = (case retention_hours config of None \<Rightarrow> 24 | Some n \<Rightarrow> n),
       pm_max_metrics = (case max_metrics config of None \<Rightarrow> 10000 | Some n \<Rightarrow> n),
       metrics = [], operation_stats = [], collection_started = en\<rparr>)"

definition add_metric ::
  "int \<Rightarrow> string \<Rightarrow> real \<Rightarrow> string \<Rightarrow> (string \<times> string) list option \<Rightarrow>
   PerformanceMonitor \<Rightarrow> PerformanceMonitor" where
  "add_metric now name val unit tags pm =
     (if \<not> enabled pm then pm
      else let metric = \<lparr>m_name = name, m_value = val, m_unit = unit, m_timestamp = now,
                          m_tags = (case tags of None \<Rightarrow> [] | Some t \<Rightarrow> t)\<rparr>
           in pm\<lparr>metrics := deque_append (pm_max_metrics pm) (metrics pm) metric\<rparr>)"

definition str_bool :: "bool \<Rightarrow> string" where
  "str_bool b = (if b then ''True'' else ''False'')"

definition record_operation ::
  "int \<Rightarrow> string \<Rightarrow> real \<Rightarrow> bool \<Rightarrow> PerformanceMonitor \<Rightarrow> PerformanceMonitor" where
  "record_operation now operation_name duration success pm =
     (if \<not> enabled pm then pm
      else let stats0 = (case map_of (operation_stats pm) operation_name of
                           None \<Rightarrow> OperationStats_new operation_name | Some st \<Rightarrow> st);
               pm1 = pm\<lparr>operation_stats :=
                          AList.update operation_name (add_timing duration success stats0)
                            (operation_stats pm)\<rparr>
           in add_metric now (''operation.'' @ operation_name @ ''.duration'') duration
                ''seconds'' (Some [(''success'', str_bool success)]) pm1)"

text \<open>
  \<^verbatim>\<open>get_operation_stats\<close> returns one dictionary (empty when the name is unknown) for a
  truthy name, and the dictionary of all dictionaries otherwise.
\<close>

datatype stats_result = One "stats_dict option" | All "(string \<times> stats_dict) list"

definition get_operation_stats :: "string option \<Rightarrow> PerformanceMonitor \<Rightarrow> stats_result" where
  "get_operation_stats operation_name pm =
     (case operation_name of
        Some n \<Rightarrow>
          (if n \<noteq> [] then One (map_option stats_to_dict (map_of (operation_stats pm) n))
           else All (map (\<lambda>(k, st). (k, stats_to_dict st)) (operation_stats pm)))
      | None \<Rightarrow> All (map (\<lambda>(k, st). (k, stats_to_dict st)) (operation_stats pm)))"

fun is_prefix :: "'a list \<Rightarrow> 'a list \<Rightarrow> bool" where
  "is_prefix [] ys = True"
| "is_prefix (x # xs) [] = False"
| "is_prefix (x # xs) (y # ys) = (x = y \<and> is_prefix xs ys)"

text \<open>Python's \<^verbatim>\<open>needle in haystack\<close> on strings.\<close>

fun str_in :: "'a list \<Rightarrow> 'a list \<Rightarrow> bool" where
  "str_in xs [] = (xs = [])"
| "str_in xs (y # ys) = (is_prefix xs (y # ys) \<or> str_in xs ys)"

text \<open>
  \<^verbatim>\<open>get_metrics\<close>: a \<^verbatim>\<open>timedelta\<close> of zero and an empty filter string are falsy and
  filter nothing. The metric dictionary has the fields of the metric itself.
\<close>

definition get_metrics ::
  "int \<Rightarrow> string option \<Rightarrow> int option \<Rightarrow> PerformanceMonitor \<Rightarrow> PerformanceMetric list" where
  "get_metrics now name_filter time_range pm =
     (let ms = metrics pm;
          ms1 = (case time_range of
                   Some r \<Rightarrow> (if r \<noteq> 0 then filter (\<lambda>m. m_timestamp m \<ge> now - r) ms else ms)
                 | None \<Rightarrow> ms);
          ms2 = (case name_filter of
                   Some f \<Rightarrow> (if f \<noteq> [] then filter (\<lambda>m. str_in f (m_name m)) ms1 else ms1)
                 | None \<Rightarrow> ms1)
      in ms2)"

definition reset_stats :: "PerformanceMonitor \<Rightarrow> PerformanceMonitor" where
  "reset_stats pm = pm\<lparr>metrics := [], operation_stats := []\<rparr>"

section \<open>Session pool: \<^verbatim>\<open>tv/core/session_manager.py\<close>\<close>


record BrowserSession =
  browser :: nat
  session_id :: string
  created_at :: int
  last_used :: int
  is_authenticated :: bool
  username :: "string option"
  usage_count :: int
  is_busy :: bool
  error_count :: int
  max_errors :: int

text \<open>The dataclass constructor with its defaults, followed by \<^verbatim>\<open>__post_init__\<close>.\<close>

definition BrowserSession_new :: "string \<Rightarrow> nat \<Rightarrow> string \<Rightarrow> int \<Rightarrow> int \<Rightarrow> BrowserSession" where
  "BrowserSession_new generated b sid created used =
     \<lparr>browser = b, session_id = (if sid = [] then generated else sid),
      created_at = created, last_used = used, is_authenticated = False, username = None,
      usage_count = 0, is_busy = False, error_count = 0, max_errors = 5\<rparr>"

definition is_expired :: "int \<Rightarrow> int \<Rightarrow> BrowserSession \<Rightarrow> bool" where
  "is_expired now max_age s = (now - created_at s > max_age)"

definition is_idle :: "int \<Rightarrow> int \<Rightarrow> BrowserSession \<Rightarrow> bool" where
  "is_idle now max_idle s = (now - last_used s > max_idle)"

definition is_healthy :: "BrowserSession \<Rightarrow> bool" where
  "is_healthy s = (error_count s < max_errors s)"

definition mark_used :: "int \<Rightarrow> BrowserSession \<Rightarrow> BrowserSession" where
  "mark_used now s = s\<lparr>last_used := now, usage_count := usage_count s + 1\<rparr>"

definition mark_error :: "BrowserSession \<Rightarrow> BrowserSession" where
  "mark_error s = s\<lparr>error_count := error_count s + 1\<rparr>"

text \<open>
  The configuration dictionary with its numeric options; \<^verbatim>\<open>config.get(key, default)\<close>.
  The two size limits count sessions and are naturals.
\<close>

type_synonym config = "(string \<times> nat) list"

definition config_get :: "config \<Rightarrow> string \<Rightarrow> nat \<Rightarrow> nat" where
  "config_get config key dflt = (case map_of config key of None \<Rightarrow> dflt | Some v \<Rightarrow> v)"

record SessionPool =
  max_pool_size :: nat
  min_pool_size :: nat
  max_session_age :: int
  max_idle_time :: int
  health_check_interval :: nat
  sessions :: "(string \<times> BrowserSession) list"
  available_sessions :: "string set"
  shutdown_event :: bool
  quit_calls :: "nat list"

definition SessionPool_init :: "config \<Rightarrow> SessionPool" where
  "SessionPool_init config =
     \<lparr>max_pool_size = config_get config ''max_pool_size'' 10,
      min_pool_size = config_get config ''min_pool_size'' 2,
      max_session_age = 3600000000 * int (config_get config ''max_session_age_hours'' 2),
      max_idle_time = 60000000 * int (config_get config ''max_idle_minutes'' 30),
      health_check_interval = config_get config ''health_check_interval'' 300,
      sessions = [], available_sessions = {}, shutdown_event = False, quit_calls = []\<rparr>"

text \<open>
  What one call of \<^verbatim>\<open>_create_session\<close> meets: \<open>None\<close> when \<^verbatim>\<open>create_browser\<close>
  raises, otherwise the new handle, the generated identifier and the two clock readings.
\<close>

record creation =
  c_browser :: nat
  c_generated_id :: string
  c_created_at :: int
  c_last_used :: int

definition create_session :: "creation option \<Rightarrow> BrowserSession option" where
  "create_session outcome =
     (case outcome of
        None \<Rightarrow> None
      | Some c \<Rightarrow> Some (BrowserSession_new (c_generated_id c) (c_browser c) []
                          (c_created_at c) (c_last_used c)))"

definition remove_session :: "string \<Rightarrow> SessionPool \<Rightarrow> SessionPool" where
  "remove_session sid p =
     (case map_of (sessions p) sid of
        None \<Rightarrow> p
      | Some s \<Rightarrow> p\<lparr>quit_calls := quit_calls p @ [browser s],
                     sessions := AList.delete sid (sessions p),
                     available_sessions := available_sessions p - {sid}\<rparr>)"

definition should_retire :: "int \<Rightarrow> SessionPool \<Rightarrow> BrowserSession \<Rightarrow> bool" where
  "should_retire now p s =
     (is_expired now (max_session_age p) s \<or> is_idle now (max_idle_time p) s \<or> \<not> is_healthy s)"

definition cleanup_expired_sessions :: "int \<Rightarrow> SessionPool \<Rightarrow> SessionPool" where
  "cleanup_expired_sessions now p =
     (let expired_sessions = map fst (filter (\<lambda>(sid, s). should_retire now p s) (sessions p))
      in fold remove_session expired_sessions p)"

definition add_created :: "creation option \<Rightarrow> SessionPool \<Rightarrow> SessionPool" where
  "add_created outcome p =
     (case create_session outcome of
        None \<Rightarrow> p
      | Some s \<Rightarrow> p\<lparr>sessions := AList.update (session_id s) s (sessions p),
                     available_sessions := insert (session_id s) (available_sessions p)\<rparr>)"

text \<open>The k-th pass of the loop of \<^verbatim>\<open>_maintain_pool_size\<close> meets \<open>outcomes k\<close>.\<close>

definition maintain_pool_size :: "(nat \<Rightarrow> creation option) \<Rightarrow> SessionPool \<Rightarrow> SessionPool" where
  "maintain_pool_size outcomes p =
     (let current_size = length (sessions p)
      in if current_size < min_pool_size p
         then fold add_created (map outcomes [0..<min_pool_size p - current_size]) p
         else p)"

text \<open>
  One pass of the loop body of \<^verbatim>\<open>get_session\<close>, the part under the lock.
  \<open>iteration\<close> is \<^verbatim>\<open>list(self._available_sessions)\<close>, \<open>clock\<close> what \<^verbatim>\<open>mark_used\<close>
  reads, \<open>extra_delay\<close> the milliseconds by which the pass and its sleep exceed 100.
\<close>

record attempt_env =
  iteration :: "string list"
  creation_outcome :: "creation option"
  clock :: int
  extra_delay :: nat

fun find_available ::
  "string list \<Rightarrow> (string \<times> BrowserSession) list \<Rightarrow> (string \<times> BrowserSession) option" where
  "find_available [] ss = None"
| "find_available (sid # rest) ss =
     (case map_of ss sid of
        Some s \<Rightarrow> if is_healthy s then Some (sid, s) else find_available rest ss
      | None \<Rightarrow> find_available rest ss)"

definition get_session_attempt ::
  "attempt_env \<Rightarrow> SessionPool \<Rightarrow> BrowserSession option \<times> SessionPool" where
  "get_session_attempt e p =
     (case find_available (iteration e) (sessions p) of
        Some (sid, s) \<Rightarrow>
          (let s' = mark_used (clock e) (s\<lparr>is_busy := True\<rparr>)
           in (Some s', p\<lparr>available_sessions := available_sessions p - {sid},
                           sessions := AList.update sid s' (sessions p)\<rparr>))
      | None \<Rightarrow>
          (if length (sessions p) < max_pool_size p then
             (case create_session (creation_outcome e) of
                Some s \<Rightarrow>
                  (let s' = mark_used (clock e) (s\<lparr>is_busy := True\<rparr>)
                   in (Some s', p\<lparr>sessions := AList.update (session_id s) s' (sessions p)\<rparr>))
              | None \<Rightarrow> (None, p))
           else (None, p)))"

text \<open>
  \<^verbatim>\<open>get_session(timeout)\<close>: the timeout and the elapsed time are in milliseconds, and
  every pass that does not return takes the 100 ms of \<^verbatim>\<open>time.sleep(0.1)\<close> or more. The
  value \<open>None\<close> is the \<^verbatim>\<open>return None\<close> after the loop.
\<close>

function get_session_loop ::
  "int \<Rightarrow> (nat \<Rightarrow> attempt_env) \<Rightarrow> nat \<Rightarrow> int \<Rightarrow> SessionPool \<Rightarrow> BrowserSession option \<times> SessionPool" where
  "get_session_loop timeout env k elapsed p =
     (if elapsed < timeout then
        (case get_session_attempt (env k) p of
           (Some s, p') \<Rightarrow> (Some s, p')
         | (None, p') \<Rightarrow>
             get_session_loop timeout env (Suc k) (elapsed + 100 + int (extra_delay (env k))) p')
      else (None, p))"
  by pat_completeness auto
termination
  by (relation "measure (\<lambda>(timeout, env, k, elapsed, p). nat (timeout - elapsed))") auto

declare get_session_loop.simps [simp del]

definition get_session :: "int \<Rightarrow> (nat \<Rightarrow> attempt_env) \<Rightarrow> SessionPool \<Rightarrow> BrowserSession option \<times> SessionPool" where
  "get_session timeout env p = get_session_loop timeout env 0 0 p"

text \<open>
  \<^verbatim>\<open>return_session\<close> is given the session object; an object is in the pool's dictionary
  exactly when its identifier is a key, so the model takes the identifier.
\<close>

definition return_session :: "string \<Rightarrow> bool \<Rightarrow> SessionPool \<Rightarrow> SessionPool" where
  "return_session sid had_error p =
     (case map_of (sessions p) sid of
        None \<Rightarrow> p
      | Some s \<Rightarrow>
          (let s1 = s\<lparr>is_busy := False\<rparr>;
               s2 = (if had_error then mark_error s1 else s1);
               p1 = p\<lparr>sessions := AList.update sid s2 (sessions p)\<rparr>
           in if is_healthy s2
              then p1\<lparr>available_sessions := insert sid (available_sessions p1)\<rparr>
              else remove_session sid p1))"

text \<open>A caller for whom every pass of the loop meets the same surroundings.\<close>

definition always :: "'a \<Rightarrow> nat \<Rightarrow> 'a" where
  "always e k = e"

definition shutdown :: "SessionPool \<Rightarrow> SessionPool" where
  "shutdown p = fold remove_session (map fst (sessions p)) (p\<lparr>shutdown_event := True\<rparr>)"


text \<open>
  The pool is shared by its callers and the janitor thread; each of them changes it only
  inside the lock, so a history of the pool is a sequence of these steps.
\<close>

datatype event =
    Acquire attempt_env
  | Release string bool
  | Cleanup int
  | Maintain "nat \<Rightarrow> creation option"
  | Shutdown

fun step :: "event \<Rightarrow> SessionPool \<Rightarrow> SessionPool" where
  "step (Acquire e) p = snd (get_session_attempt e p)"
| "step (Release sid had_error) p = return_session sid had_error p"
| "step (Cleanup now) p = cleanup_expired_sessions now p"
| "step (Maintain outcomes) p = maintain_pool_size outcomes p"
| "step Shutdown p = shutdown p"

definition run :: "event list \<Rightarrow> SessionPool \<Rightarrow> SessionPool" where
  "run evs p = fold step evs p"

section \<open>Timing primitives: \<^verbatim>\<open>tv/utils/timing_utils.py\<close>\<close>






section \<open>Concurrent dispatch: \<^verbatim>\<open>tv/core/async_browser.py\<close>\<close>












section \<open>Invariants and observations of the pool\<close>

text \<open>A dictionary holds each key once.\<close>

definition keys_distinct :: "SessionPool \<Rightarrow> bool" where
  "keys_distinct p = distinct (map fst (sessions p))"

text \<open>Every session in the pool has the error budget of the dataclass default.\<close>

definition budget_inv :: "SessionPool \<Rightarrow> bool" where
  "budget_inv p = (\<forall>(k, s) \<in> set (sessions p). max_errors s = 5)"

text \<open>
  The idle state of the data model: a session is stored under its own identifier, and one
  whose identifier is in the available set is not busy.
\<close>

definition idle_inv :: "SessionPool \<Rightarrow> bool" where
  "idle_inv p = (\<forall>(k, s) \<in> set (sessions p).
                   session_id s = k \<and> (k \<in> available_sessions p \<longrightarrow> \<not> is_busy s))"

text \<open>The pool as seen from outside, up to \<^verbatim>\<open>usage_count\<close> and \<^verbatim>\<open>last_used\<close>.\<close>

definition forget_usage :: "BrowserSession \<Rightarrow> BrowserSession" where
  "forget_usage s = s\<lparr>last_used := 0, usage_count := 0\<rparr>"

definition external :: "SessionPool \<Rightarrow> SessionPool" where
  "external p = p\<lparr>sessions := map (\<lambda>(k, s). (k, forget_usage s)) (sessions p)\<rparr>"

text \<open>
  Surroundings for concrete scenarios: \<open>ex_new sid b t\<close> is a pass at time \<open>t\<close> in which
  the available set is empty and \<^verbatim>\<open>create_browser\<close> yields handle \<open>b\<close> for a session
  named \<open>sid\<close>; \<open>ex_old order t\<close> is a pass that iterates the available set in the given
  order and in which \<^verbatim>\<open>create_browser\<close> raises.
\<close>

definition ex_new :: "string \<Rightarrow> nat \<Rightarrow> int \<Rightarrow> attempt_env" where
  "ex_new sid b t =
     \<lparr>iteration = [],
      creation_outcome = Some \<lparr>c_browser = b, c_generated_id = sid, c_created_at = t, c_last_used = t\<rparr>,
      clock = t, extra_delay = 0\<rparr>"

definition ex_old :: "string list \<Rightarrow> int \<Rightarrow> attempt_env" where
  "ex_old order t = \<lparr>iteration = order, creation_outcome = None, clock = t, extra_delay = 0\<rparr>"

text \<open>
  The time, in milliseconds, that \<^verbatim>\<open>get_session\<close> has spent when it tests its loop
  condition for pass \<open>k\<close>: every earlier pass took its 100 ms of sleep and its extra delay.
\<close>

fun elapsed_before :: "(nat \<Rightarrow> attempt_env) \<Rightarrow> nat \<Rightarrow> int" where
  "elapsed_before env 0 = 0"
| "elapsed_before env (Suc k) = elapsed_before env k + 100 + int (extra_delay (env k))"


section \<open>Properties of the operation recorder\<close>

text \<open>
  C9. After \<^verbatim>\<open>reset_stats\<close>, a snapshot is empty whatever the recorder held: the
  per-operation statistics mapping is the empty dictionary (and the dictionary asked for one
  operation name is empty too), and the metric event list is empty under every filter.
\<close>

theorem C9_reset_then_snapshot_empty:
  "get_operation_stats None (reset_stats pm) = All []
   \<and> get_operation_stats (Some []) (reset_stats pm) = All []
   \<and> get_operation_stats (Some (c # cs)) (reset_stats pm) = One None
   \<and> get_metrics now name_filter time_range (reset_stats pm) = []"
  by (simp add: get_operation_stats_def get_metrics_def reset_stats_def
           split: option.split)

text \<open>
  C10. A recorder constructed with \<^verbatim>\<open>performance_monitoring = False\<close> is disabled,
  and on a disabled recorder \<^verbatim>\<open>record_operation\<close> and \<^verbatim>\<open>add_metric\<close> return the
  state they were given: no statistics entry is created or updated, no metric event is
  appended, and every snapshot taken afterwards equals the one taken before.
\<close>

theorem C10_disabled_recorder_is_frozen:
  "\<not> enabled (PerformanceMonitor_init (config\<lparr>performance_monitoring := Some False\<rparr>))
   \<and> (\<not> enabled pm \<longrightarrow>
        record_operation now op_name duration success pm = pm
        \<and> add_metric now name val unit tags pm = pm
        \<and> get_operation_stats q (record_operation now op_name duration success pm)
            = get_operation_stats q pm
        \<and> get_metrics t f r (add_metric now name val unit tags pm) = get_metrics t f r pm)"
  by (simp add: PerformanceMonitor_init_def record_operation_def add_metric_def)

theorem C10_disabled_recorder_witness:
  "record_operation 5 ''login'' 2 True
     (PerformanceMonitor_init \<lparr>performance_monitoring = Some False, collect_interval = None,
        retention_hours = None, max_metrics = None\<rparr>)
   = PerformanceMonitor_init \<lparr>performance_monitoring = Some False, collect_interval = None,
        retention_hours = None, max_metrics = None\<rparr>
   \<and> metrics (add_metric 5 ''cpu'' 1 ''percent'' None
        (PerformanceMonitor_init \<lparr>performance_monitoring = Some False, collect_interval = None,
           retention_hours = None, max_metrics = None\<rparr>)) = []"
  using C10_disabled_recorder_is_frozen
    [of "\<lparr>performance_monitoring = Some False, collect_interval = None,
          retention_hours = None, max_metrics = None\<rparr>"
        "PerformanceMonitor_init \<lparr>performance_monitoring = Some False, collect_interval = None,
          retention_hours = None, max_metrics = None\<rparr>"
        5 "''login''" 2 True "''cpu''" 1 "''percent''" None]
  by (simp add: PerformanceMonitor_init_def)

section \<open>Properties of the session pool\<close>

lemma length_update_le: "length (AList.update k v al) \<le> Suc (length al)"
  by (induction al) auto

lemma length_delete_le: "length (AList.delete k al) \<le> length al"
  by (simp add: AList.delete_eq)

lemma remove_session_frame:
  "max_pool_size (remove_session sid p) = max_pool_size p"
  "min_pool_size (remove_session sid p) = min_pool_size p"
  "length (sessions (remove_session sid p)) \<le> length (sessions p)"
  by (simp_all add: remove_session_def length_delete_le split: option.split)

lemma fold_remove_session_frame:
  "max_pool_size (fold remove_session sids p) = max_pool_size p
   \<and> min_pool_size (fold remove_session sids p) = min_pool_size p
   \<and> length (sessions (fold remove_session sids p)) \<le> length (sessions p)"
proof (induction sids arbitrary: p)
  case Nil
  show ?case by simp
next
  case (Cons sid sids)
  from Cons.IH [of "remove_session sid p"] remove_session_frame [of sid p]
  show ?case by simp
qed

lemma add_created_frame:
  "max_pool_size (add_created c p) = max_pool_size p"
  "min_pool_size (add_created c p) = min_pool_size p"
  "length (sessions (add_created c p)) \<le> Suc (length (sessions p))"
  by (simp_all add: add_created_def length_update_le split: option.split)

lemma fold_add_created_frame:
  "max_pool_size (fold add_created cs p) = max_pool_size p
   \<and> min_pool_size (fold add_created cs p) = min_pool_size p
   \<and> length (sessions (fold add_created cs p)) \<le> length (sessions p) + length cs"
proof (induction cs arbitrary: p)
  case Nil
  show ?case by simp
next
  case (Cons c cs)
  from Cons.IH [of "add_created c p"] add_created_frame [of c p]
  show ?case by simp
qed

lemma attempt_frame:
  "max_pool_size (snd (get_session_attempt e p)) = max_pool_size p"
  "min_pool_size (snd (get_session_attempt e p)) = min_pool_size p"
  by (simp_all add: get_session_attempt_def Let_def split: option.split prod.split)

lemma length_update_present:
  "map_of al k = Some v \<Longrightarrow> length (AList.update k w al) = length al"
  by (induction al) (auto split: if_splits)

lemma find_available_Some:
  "find_available order ss = Some (sid, s) \<Longrightarrow> map_of ss sid = Some s \<and> is_healthy s \<and> sid \<in> set order"
  by (induction order) (auto split: option.splits if_splits)

lemma attempt_size:
  "length (sessions p) \<le> max_pool_size p \<Longrightarrow>
   length (sessions (snd (get_session_attempt e p))) \<le> max_pool_size p"
proof (cases "find_available (iteration e) (sessions p)")
  case None
  then show "length (sessions p) \<le> max_pool_size p \<Longrightarrow> ?thesis"
    using length_update_le [of _ _ "sessions p"]
    by (auto simp: get_session_attempt_def Let_def Suc_le_eq split: option.split
             intro: le_trans [OF length_update_le])
next
  case (Some a)
  then obtain sid s where a: "a = (sid, s)" by (cases a)
  with Some have "map_of (sessions p) sid = Some s" by (simp add: find_available_Some)
  then show "length (sessions p) \<le> max_pool_size p \<Longrightarrow> ?thesis"
    using Some a by (simp add: get_session_attempt_def Let_def length_update_present)
qed

lemma return_frame:
  "max_pool_size (return_session sid h p) = max_pool_size p"
  "min_pool_size (return_session sid h p) = min_pool_size p"
  "length (sessions (return_session sid h p)) \<le> length (sessions p)"
  using remove_session_frame(3) [of sid "p\<lparr>sessions := AList.update sid x (sessions p)\<rparr>" for x]
  by (auto simp: return_session_def Let_def remove_session_frame length_update_present
           split: option.split intro: le_trans)

lemma maintain_frame:
  "max_pool_size (maintain_pool_size cr p) = max_pool_size p"
  "min_pool_size (maintain_pool_size cr p) = min_pool_size p"
  by (simp_all add: maintain_pool_size_def Let_def fold_add_created_frame)

lemma maintain_size:
  assumes "min_pool_size p \<le> max_pool_size p" "length (sessions p) \<le> max_pool_size p"
  shows "length (sessions (maintain_pool_size cr p)) \<le> max_pool_size p"
proof (cases "length (sessions p) < min_pool_size p")
  case True
  let ?cs = "map cr [0..<min_pool_size p - length (sessions p)]"
  have "length (sessions (fold add_created ?cs p)) \<le> length (sessions p) + length ?cs"
    using fold_add_created_frame [of ?cs p] by blast
  with True assms show ?thesis by (simp add: maintain_pool_size_def Let_def)
next
  case False
  with assms show ?thesis by (simp add: maintain_pool_size_def Let_def)
qed

lemma cleanup_frame:
  "max_pool_size (cleanup_expired_sessions now p) = max_pool_size p"
  "min_pool_size (cleanup_expired_sessions now p) = min_pool_size p"
  "length (sessions (cleanup_expired_sessions now p)) \<le> length (sessions p)"
  by (simp_all add: cleanup_expired_sessions_def Let_def fold_remove_session_frame)

lemma shutdown_frame:
  "max_pool_size (shutdown p) = max_pool_size p"
  "min_pool_size (shutdown p) = min_pool_size p"
  "length (sessions (shutdown p)) \<le> length (sessions p)"
  using fold_remove_session_frame [of "map fst (sessions p)" "p\<lparr>shutdown_event := True\<rparr>"]
  by (simp_all add: shutdown_def)

lemma step_limits:
  "max_pool_size (step ev p) = max_pool_size p \<and> min_pool_size (step ev p) = min_pool_size p"
  by (cases ev)
     (simp_all add: attempt_frame return_frame cleanup_frame maintain_frame shutdown_frame)

lemma step_size:
  assumes "min_pool_size p \<le> max_pool_size p" "length (sessions p) \<le> max_pool_size p"
  shows "length (sessions (step ev p)) \<le> max_pool_size p"
proof (cases ev)
  case (Acquire e)
  with assms show ?thesis by (simp add: attempt_size)
next
  case (Release sid h)
  with assms return_frame(3) [of sid h p] show ?thesis by simp
next
  case (Cleanup now)
  with assms cleanup_frame(3) [of now p] show ?thesis by simp
next
  case (Maintain cr)
  with assms show ?thesis by (simp add: maintain_size)
next
  case Shutdown
  with assms shutdown_frame(3) [of p] show ?thesis by simp
qed

lemma run_size:
  "min_pool_size p \<le> max_pool_size p \<Longrightarrow> length (sessions p) \<le> max_pool_size p \<Longrightarrow>
   max_pool_size (run evs p) = max_pool_size p
   \<and> min_pool_size (run evs p) = min_pool_size p
   \<and> length (sessions (run evs p)) \<le> max_pool_size p"
proof (induction evs arbitrary: p)
  case Nil
  then show ?case by (simp add: run_def)
next
  case (Cons ev evs)
  have "run (ev # evs) p = run evs (step ev p)" by (simp add: run_def)
  moreover from Cons.prems step_limits [of ev p] step_size [of p ev]
  have "min_pool_size (step ev p) \<le> max_pool_size (step ev p)"
       "length (sessions (step ev p)) \<le> max_pool_size (step ev p)" by simp_all
  ultimately show ?case using Cons.IH [of "step ev p"] step_limits [of ev p] by simp
qed

lemma set_update_subset: "set (AList.update k v al) \<subseteq> insert (k, v) (set al)"
  by (induction al) auto

lemma set_delete_subset: "set (AList.delete k al) \<subseteq> set al"
  by (auto simp: AList.delete_eq)

lemma budget_inv_update:
  "budget_inv p \<Longrightarrow> max_errors v = 5 \<Longrightarrow> budget_inv (p\<lparr>sessions := AList.update k v (sessions p)\<rparr>)"
  using set_update_subset [of k v "sessions p"] by (auto simp: budget_inv_def)

lemma budget_inv_lookup: "budget_inv p \<Longrightarrow> map_of (sessions p) k = Some s \<Longrightarrow> max_errors s = 5"
  by (auto simp: budget_inv_def dest: map_of_SomeD)

lemma budget_inv_cong:
  "sessions q = sessions p \<Longrightarrow> budget_inv q = budget_inv p"
  by (simp add: budget_inv_def)

lemma budget_remove: "budget_inv p \<Longrightarrow> budget_inv (remove_session sid p)"
  using set_delete_subset [of sid "sessions p"]
  by (auto simp: budget_inv_def remove_session_def split: option.split)

lemma budget_fold_remove: "budget_inv p \<Longrightarrow> budget_inv (fold remove_session sids p)"
  by (induction sids arbitrary: p) (simp_all add: budget_remove)

lemma create_session_budget: "create_session c = Some s \<Longrightarrow> max_errors s = 5 \<and> error_count s = 0"
  by (auto simp: create_session_def BrowserSession_new_def split: option.splits)

lemma budget_add_created: "budget_inv p \<Longrightarrow> budget_inv (add_created c p)"
  using set_update_subset [of _ _ "sessions p"]
  by (auto simp: budget_inv_def add_created_def split: option.split dest!: create_session_budget)

lemma budget_fold_add: "budget_inv p \<Longrightarrow> budget_inv (fold add_created cs p)"
  by (induction cs arbitrary: p) (simp_all add: budget_add_created)

lemma budget_attempt: "budget_inv p \<Longrightarrow> budget_inv (snd (get_session_attempt e p))"
proof (cases "find_available (iteration e) (sessions p)")
  case None
  assume inv: "budget_inv p"
  show ?thesis
  proof (cases "create_session (creation_outcome e)")
    case N: None
    with None inv show ?thesis by (simp add: get_session_attempt_def)
  next
    case (Some s)
    then have "max_errors (mark_used (clock e) (s\<lparr>is_busy := True\<rparr>)) = 5"
      by (simp add: mark_used_def create_session_budget)
    with inv have "budget_inv (p\<lparr>sessions := AList.update (session_id s)
        (mark_used (clock e) (s\<lparr>is_busy := True\<rparr>)) (sessions p)\<rparr>)"
      by (rule budget_inv_update)
    with None Some inv show ?thesis by (simp add: get_session_attempt_def Let_def)
  qed
next
  case (Some a)
  assume inv: "budget_inv p"
  obtain sid s where a: "a = (sid, s)" by (cases a)
  with Some have "map_of (sessions p) sid = Some s" by (simp add: find_available_Some)
  with inv have "max_errors s = 5" by (rule budget_inv_lookup)
  then have "max_errors (mark_used (clock e) (s\<lparr>is_busy := True\<rparr>)) = 5"
    by (simp add: mark_used_def)
  with inv have "budget_inv (p\<lparr>sessions := AList.update sid
        (mark_used (clock e) (s\<lparr>is_busy := True\<rparr>)) (sessions p)\<rparr>)"
    by (rule budget_inv_update)
  with Some a show ?thesis by (simp add: get_session_attempt_def Let_def budget_inv_def)
qed

lemma budget_return: "budget_inv p \<Longrightarrow> budget_inv (return_session sid h p)"
proof (cases "map_of (sessions p) sid")
  case None
  then show "budget_inv p \<Longrightarrow> ?thesis" by (simp add: return_session_def)
next
  case (Some s)
  assume inv: "budget_inv p"
  from inv Some have m: "max_errors s = 5" by (rule budget_inv_lookup)
  let ?s2 = "if h then mark_error (s\<lparr>is_busy := False\<rparr>) else s\<lparr>is_busy := False\<rparr>"
  have "max_errors ?s2 = 5" using m by (simp add: mark_error_def)
  with inv have "budget_inv (p\<lparr>sessions := AList.update sid ?s2 (sessions p)\<rparr>)"
    by (rule budget_inv_update)
  then show ?thesis
    using Some budget_remove [of "p\<lparr>sessions := AList.update sid ?s2 (sessions p)\<rparr>" sid]
    by (simp add: return_session_def Let_def budget_inv_def)
qed

lemma budget_step: "budget_inv p \<Longrightarrow> budget_inv (step ev p)"
proof (cases ev)
  case (Maintain cr)
  then show "budget_inv p \<Longrightarrow> ?thesis"
    by (simp add: maintain_pool_size_def Let_def budget_fold_add)
next
  case Shutdown
  moreover have "budget_inv p \<Longrightarrow> budget_inv (p\<lparr>shutdown_event := True\<rparr>)"
    by (simp add: budget_inv_def)
  ultimately show "budget_inv p \<Longrightarrow> ?thesis"
    by (simp add: shutdown_def budget_fold_remove)
qed (simp_all add: budget_attempt budget_return cleanup_expired_sessions_def Let_def budget_fold_remove)

lemma budget_run: "budget_inv p \<Longrightarrow> budget_inv (run evs p)"
  unfolding run_def by (induction evs arbitrary: p) (simp_all add: budget_step)

lemma budget_init: "budget_inv (SessionPool_init cfg)"
  by (simp add: budget_inv_def SessionPool_init_def)

lemma attempt_Some_healthy:
  "get_session_attempt e p = (Some s, p') \<Longrightarrow> is_healthy s \<and> is_busy s"
  by (auto simp: get_session_attempt_def Let_def mark_used_def is_healthy_def
           split: option.splits if_splits
           dest!: create_session_budget find_available_Some)

lemma loop_Some_attempt:
  "get_session_loop timeout env k elapsed p = (Some s, p') \<Longrightarrow>
   \<exists>j q. get_session_attempt (env j) q = (Some s, p') \<and> (budget_inv p \<longrightarrow> budget_inv q)"
proof (induction timeout env k elapsed p rule: get_session_loop.induct)
  case (1 timeout env k elapsed p)
  show ?case
  proof (cases "elapsed < timeout")
    case False
    with "1.prems" show ?thesis by (simp add: get_session_loop.simps [of timeout env k elapsed p])
  next
    case True
    show ?thesis
    proof (cases "get_session_attempt (env k) p")
      case (Pair r q)
      show ?thesis
      proof (cases r)
        case (Some s')
        with Pair True "1.prems" have "get_session_attempt (env k) p = (Some s, p')"
          by (simp add: get_session_loop.simps [of timeout env k elapsed p])
        then show ?thesis by blast
      next
        case None
        with Pair True "1.prems"
        have rec: "get_session_loop timeout env (Suc k) (elapsed + 100 + int (extra_delay (env k))) q
                 = (Some s, p')"
          by (simp add: get_session_loop.simps [of timeout env k elapsed p])
        have "q = snd (get_session_attempt (env k) p)" using Pair by simp
        then have "budget_inv p \<longrightarrow> budget_inv q" by (simp add: budget_attempt)
        with "1.IH" [OF True Pair [symmetric] None rec] show ?thesis by blast
      qed
    qed
  qed
qed

lemma map_of_remove_session:
  "map_of (sessions (remove_session k p)) = (map_of (sessions p))(k := None)"
  by (auto simp: remove_session_def AList.delete_conv' split: option.split)

lemma map_of_fold_remove:
  "map_of (sessions (fold remove_session ks p)) k
   = (if k \<in> set ks then None else map_of (sessions p) k)"
  by (induction ks arbitrary: p) (simp_all add: map_of_remove_session)

lemma quit_calls_fold_remove:
  "distinct (map fst xs) \<Longrightarrow> \<forall>(k, s) \<in> set xs. map_of (sessions p) k = Some s \<Longrightarrow>
   quit_calls (fold remove_session (map fst xs) p) = quit_calls p @ map (browser \<circ> snd) xs"
proof (induction xs arbitrary: p)
  case Nil
  show ?case by simp
next
  case (Cons x xs)
  obtain k s where x: "x = (k, s)" by (cases x)
  from Cons.prems x have here: "map_of (sessions p) k = Some s" by simp
  have rest: "\<forall>(k', s') \<in> set xs. map_of (sessions (remove_session k p)) k' = Some s'"
  proof (clarify)
    fix k' s' assume m: "(k', s') \<in> set xs"
    with Cons.prems(1) x have "k' \<noteq> k" by (auto simp: image_iff)
    with m Cons.prems(2) show "map_of (sessions (remove_session k p)) k' = Some s'"
      by (auto simp: map_of_remove_session)
  qed
  from Cons.prems(1) have "distinct (map fst xs)" by simp
  from Cons.IH [OF this rest] here x show ?case by (simp add: remove_session_def)
qed

lemma cleanup_lookup:
  assumes "distinct (map fst (sessions p))"
  shows "map_of (sessions (cleanup_expired_sessions now p)) sid
         = (case map_of (sessions p) sid of
              None \<Rightarrow> None
            | Some s \<Rightarrow> if should_retire now p s then None else Some s)"
proof -
  let ?ks = "map fst (filter (\<lambda>(sid, s). should_retire now p s) (sessions p))"
  have "sid \<in> set ?ks \<longleftrightarrow> (\<exists>s. map_of (sessions p) sid = Some s \<and> should_retire now p s)"
    using assms by (force simp: image_iff)
  then show ?thesis
    by (auto simp: cleanup_expired_sessions_def Let_def map_of_fold_remove split: option.split)
qed

lemma cleanup_quit_calls:
  assumes "distinct (map fst (sessions p))"
  shows "quit_calls (cleanup_expired_sessions now p)
         = quit_calls p @ map (browser \<circ> snd) (filter (\<lambda>(sid, s). should_retire now p s) (sessions p))"
proof -
  let ?xs = "filter (\<lambda>(sid, s). should_retire now p s) (sessions p)"
  have d: "distinct (map fst ?xs)" using assms by (simp add: distinct_map_filter)
  have "\<forall>(k, s) \<in> set ?xs. map_of (sessions p) k = Some s" using assms by auto
  from quit_calls_fold_remove [OF d this] show ?thesis
    by (simp add: cleanup_expired_sessions_def Let_def)
qed

lemma sessions_fold_remove_all:
  "fst ` set (sessions p) \<subseteq> set ks \<Longrightarrow> sessions (fold remove_session ks p) = []"
proof (induction ks arbitrary: p)
  case Nil
  then show ?case by simp
next
  case (Cons k ks)
  have "fst ` set (sessions (remove_session k p)) \<subseteq> set ks"
  proof (cases "map_of (sessions p) k")
    case None
    then have "k \<notin> fst ` set (sessions p)" by (simp add: map_of_eq_None_iff)
    with Cons.prems None show ?thesis by (auto simp: remove_session_def)
  next
    case (Some s)
    with Cons.prems show ?thesis
      by (auto simp: remove_session_def AList.delete_eq)
  qed
  from Cons.IH [OF this] show ?case by simp
qed

lemma shutdown_event_fold_remove:
  "shutdown_event (fold remove_session ks p) = shutdown_event p"
  by (induction ks arbitrary: p) (simp_all add: remove_session_def split: option.split)

lemma shutdown_drains:
  "sessions (shutdown p) = [] \<and> shutdown_event (shutdown p)"
  by (simp add: shutdown_def sessions_fold_remove_all shutdown_event_fold_remove)

lemma get_session_first:
  "0 < timeout \<Longrightarrow> get_session_attempt (env 0) p = (Some s, p') \<Longrightarrow>
   get_session timeout env p = (Some s, p')"
  by (simp add: get_session_def get_session_loop.simps [of timeout env 0 0 p])




lemma attempt_Some_stored:
  "get_session_attempt e p = (Some s, p') \<Longrightarrow> \<exists>k. map_of (sessions p') k = Some s"
  by (auto simp: get_session_attempt_def Let_def AList.update_conv'
           split: option.splits if_splits)

lemma find_available_None:
  "find_available order ss = None \<Longrightarrow> sid \<in> set order \<Longrightarrow> map_of ss sid = Some s \<Longrightarrow> \<not> is_healthy s"
  by (induction order) (auto split: option.splits if_splits)

lemma map_update_same:
  "map_of al k = Some v0 \<Longrightarrow> g v = g v0 \<Longrightarrow>
   map (\<lambda>(k, s). (k, g s)) (AList.update k v al) = map (\<lambda>(k, s). (k, g s)) al"
  by (induction al) (auto split: if_splits)

lemma idle_inv_lookup:
  "idle_inv p \<Longrightarrow> map_of (sessions p) k = Some s \<Longrightarrow>
   session_id s = k \<and> (k \<in> available_sessions p \<longrightarrow> \<not> is_busy s)"
  by (auto simp: idle_inv_def dest: map_of_SomeD)

lemma acquire_release_round_trip:
  assumes inv: "idle_inv p"
    and order: "set (iteration (env 0)) = available_sessions p"
    and t: "0 < timeout"
    and idle: "sid \<in> available_sessions p" "map_of (sessions p) sid = Some s" "is_healthy s"
  shows "case get_session timeout env p of
           (None, p1) \<Rightarrow> False
         | (Some s1, p1) \<Rightarrow>
             session_id s1 \<in> available_sessions p
             \<and> (\<exists>s0. map_of (sessions p) (session_id s1) = Some s0
                     \<and> s1 = mark_used (clock (env 0)) (s0\<lparr>is_busy := True\<rparr>)
                     \<and> return_session (session_id s1) False p1
                        = p\<lparr>sessions := AList.update (session_id s1)
                                          (mark_used (clock (env 0)) s0) (sessions p)\<rparr>)
             \<and> external (return_session (session_id s1) False p1) = external p"
proof (cases "find_available (iteration (env 0)) (sessions p)")
  case None
  from find_available_None [OF None _ idle(2)] idle order show ?thesis by simp
next
  case (Some a)
  obtain k s0 where a: "a = (k, s0)" by (cases a)
  from Some a have f: "map_of (sessions p) k = Some s0" "is_healthy s0" "k \<in> set (iteration (env 0))"
    by (simp_all add: find_available_Some)
  with order have av: "k \<in> available_sessions p" by simp
  from idle_inv_lookup [OF inv f(1)] av have id: "session_id s0 = k" and nb: "\<not> is_busy s0"
    by simp_all
  let ?t = "clock (env 0)"
  let ?s1 = "mark_used ?t (s0\<lparr>is_busy := True\<rparr>)"
  let ?p1 = "p\<lparr>available_sessions := available_sessions p - {k},
               sessions := AList.update k ?s1 (sessions p)\<rparr>"
  have att: "get_session_attempt (env 0) p = (Some ?s1, ?p1)"
    using Some a by (simp add: get_session_attempt_def Let_def)
  have g: "get_session timeout env p = (Some ?s1, ?p1)"
    using t att by (rule get_session_first)
  have id1: "session_id ?s1 = k" using id by (simp add: mark_used_def)
  have unbusy: "?s1\<lparr>is_busy := False\<rparr> = mark_used ?t s0"
    using nb by (simp add: mark_used_def)
  have h: "is_healthy (mark_used ?t s0)" using f(2) by (simp add: is_healthy_def mark_used_def)
  have ins: "insert k (available_sessions p - {k}) = available_sessions p" using av by auto
  have ret: "return_session k False ?p1
             = p\<lparr>sessions := AList.update k (mark_used ?t s0) (sessions p)\<rparr>"
    using unbusy h ins by (simp add: return_session_def Let_def AList.update_conv')
  have ext: "external (p\<lparr>sessions := AList.update k (mark_used ?t s0) (sessions p)\<rparr>) = external p"
    using map_update_same [OF f(1), of forget_usage "mark_used ?t s0"]
    by (simp add: external_def forget_usage_def mark_used_def)
  show ?thesis using g id1 av f(1) ret ext by simp
qed

lemma keys_remove: "keys_distinct p \<Longrightarrow> keys_distinct (remove_session sid p)"
  by (simp add: keys_distinct_def remove_session_def AList.distinct_delete split: option.split)

lemma keys_fold_remove: "keys_distinct p \<Longrightarrow> keys_distinct (fold remove_session sids p)"
  by (induction sids arbitrary: p) (simp_all add: keys_remove)

lemma keys_add_created: "keys_distinct p \<Longrightarrow> keys_distinct (add_created c p)"
  by (simp add: keys_distinct_def add_created_def AList.distinct_update split: option.split)

lemma keys_fold_add: "keys_distinct p \<Longrightarrow> keys_distinct (fold add_created cs p)"
  by (induction cs arbitrary: p) (simp_all add: keys_add_created)

lemma keys_attempt: "keys_distinct p \<Longrightarrow> keys_distinct (snd (get_session_attempt e p))"
  by (simp add: keys_distinct_def get_session_attempt_def Let_def AList.distinct_update
           split: option.split prod.split)

lemma keys_return: "keys_distinct p \<Longrightarrow> keys_distinct (return_session sid h p)"
  using keys_remove [of "p\<lparr>sessions := AList.update sid x (sessions p)\<rparr>" sid for x]
  by (simp add: keys_distinct_def return_session_def Let_def AList.distinct_update
           split: option.split)

lemma keys_step: "keys_distinct p \<Longrightarrow> keys_distinct (step ev p)"
proof (cases ev)
  case Shutdown
  moreover have "keys_distinct p \<Longrightarrow> keys_distinct (p\<lparr>shutdown_event := True\<rparr>)"
    by (simp add: keys_distinct_def)
  ultimately show "keys_distinct p \<Longrightarrow> ?thesis" by (simp add: shutdown_def keys_fold_remove)
qed (simp_all add: keys_attempt keys_return cleanup_expired_sessions_def maintain_pool_size_def
       Let_def keys_fold_remove keys_fold_add)

lemma keys_run: "keys_distinct p \<Longrightarrow> keys_distinct (run evs p)"
  unfolding run_def by (induction evs arbitrary: p) (simp_all add: keys_step)

lemma keys_init: "keys_distinct (SessionPool_init cfg)"
  by (simp add: keys_distinct_def SessionPool_init_def)

lemma get_session_Some_attempt:
  "fst (get_session timeout env p) = Some s \<Longrightarrow>
   \<exists>j q p'. get_session_attempt (env j) q = (Some s, p') \<and> (budget_inv p \<longrightarrow> budget_inv q)"
  using loop_Some_attempt [of timeout env 0 0 p s "snd (get_session timeout env p)"]
  by (auto simp: get_session_def prod_eq_iff)

lemma attempt_Some_budget:
  "get_session_attempt e q = (Some s, p') \<Longrightarrow> budget_inv q \<Longrightarrow> max_errors s = 5"
  by (auto simp: get_session_attempt_def Let_def mark_used_def
           split: option.splits if_splits
           dest!: create_session_budget find_available_Some dest: budget_inv_lookup)

lemma loop_all_fail:
  "(\<And>j. get_session_attempt (env j) p = (None, p)) \<Longrightarrow>
   get_session_loop timeout env k elapsed p = (None, p)"
proof (induction timeout env k elapsed p rule: get_session_loop.induct)
  case (1 timeout env k elapsed p)
  show ?case
  proof (cases "elapsed < timeout")
    case False
    then show ?thesis by (simp add: get_session_loop.simps [of timeout env k elapsed p])
  next
    case True
    from "1.IH" [OF True "1.prems" [of k, symmetric] refl "1.prems"] True "1.prems" [of k]
    show ?thesis by (simp add: get_session_loop.simps [of timeout env k elapsed p])
  qed
qed


lemma elapsed_before_grows: "100 * int k \<le> elapsed_before env k"
  by (induction k) simp_all













text \<open>
  C1 (as stated: a janitor pass never removes a leased session nor closes its handle).
  The session \<open>s1\<close> is created by an acquire at time 0 and stays leased; a cleanup pass
  two hours and one microsecond later removes it from the pool and quits its browser.
\<close>

theorem C1_leased_session_retired_counterexample:
  "map_option is_busy (map_of (sessions (run [Acquire (ex_new ''s1'' 1 0)] (SessionPool_init []))) ''s1'')
     = Some True
   \<and> map_of (sessions (cleanup_expired_sessions 7200000001
                (run [Acquire (ex_new ''s1'' 1 0)] (SessionPool_init [])))) ''s1'' = None
   \<and> quit_calls (cleanup_expired_sessions 7200000001
                (run [Acquire (ex_new ''s1'' 1 0)] (SessionPool_init []))) = [1]"
  by code_simp

text \<open>
  C1 (amended). A janitor cleanup pass never reads the busy flag: it removes from the pool
  exactly the sessions that are expired, idle for too long or unhealthy at that time, leased
  or not, and calls \<^verbatim>\<open>quit\<close> on the browser of each of them, in dictionary order; every
  other session is retained unchanged.
\<close>

theorem C1_cleanup_ignores_lease:
  assumes "distinct (map fst (sessions p))"
  shows "map_of (sessions (cleanup_expired_sessions now p)) sid
           = (case map_of (sessions p) sid of
                None \<Rightarrow> None
              | Some s \<Rightarrow> if should_retire now p s then None else Some s)
         \<and> quit_calls (cleanup_expired_sessions now p)
           = quit_calls p @ map (browser \<circ> snd)
                              (filter (\<lambda>(sid, s). should_retire now p s) (sessions p))"
  using assms by (simp add: cleanup_lookup cleanup_quit_calls)

text \<open>
  Two leased sessions, the first expired and the second not: the pass removes the first
  and keeps the second, still busy.
\<close>

theorem C1_cleanup_ignores_lease_witness:
  "distinct (map fst (sessions (run [Acquire (ex_new ''s1'' 1 0), Acquire (ex_new ''s2'' 2 7000000000)]
                                  (SessionPool_init []))))
   \<and> map_option is_busy (map_of (sessions (cleanup_expired_sessions 7200000001
        (run [Acquire (ex_new ''s1'' 1 0), Acquire (ex_new ''s2'' 2 7000000000)]
           (SessionPool_init [])))) ''s2'') = Some True
   \<and> map_of (sessions (cleanup_expired_sessions 7200000001
        (run [Acquire (ex_new ''s1'' 1 0), Acquire (ex_new ''s2'' 2 7000000000)]
           (SessionPool_init [])))) ''s1'' = None"
proof -
  let ?p = "run [Acquire (ex_new ''s1'' 1 0), Acquire (ex_new ''s2'' 2 7000000000)] (SessionPool_init [])"
  have d: "distinct (map fst (sessions ?p))" by code_simp
  have s1: "(case map_of (sessions ?p) ''s1'' of None \<Rightarrow> None
             | Some s \<Rightarrow> if should_retire 7200000001 ?p s then None else Some s) = None"
    by code_simp
  have s2: "map_option is_busy (case map_of (sessions ?p) ''s2'' of None \<Rightarrow> None
             | Some s \<Rightarrow> if should_retire 7200000001 ?p s then None else Some s) = Some True"
    by code_simp
  from C1_cleanup_ignores_lease [OF d, of 7200000001 "''s1''"]
       C1_cleanup_ignores_lease [OF d, of 7200000001 "''s2''"] d s1 s2
  show ?thesis by simp
qed

text \<open>
  C2 (as stated: a session is unhealthy as soon as its error count reaches the configured
  \<^verbatim>\<open>max_errors_per_session\<close>, and is then never returned by an acquire). With a budget of 2
  in the configuration, a session released twice with \<^verbatim>\<open>had_error\<close> is handed out again
  by the next acquire, healthy, with an error count of 2.
\<close>

theorem C2_configured_budget_ignored_counterexample:
  "map_of [(''max_errors_per_session'', 2)] ''max_errors_per_session'' = Some (2::nat)
   \<and> map_option error_count
       (fst (get_session 1000 (always (ex_old [''s1''] 9))
          (run [Acquire (ex_new ''s1'' 1 0), Release ''s1'' True,
                Acquire (ex_old [''s1''] 5), Release ''s1'' True]
             (SessionPool_init [(''max_errors_per_session'', 2)])))) = Some 2
   \<and> map_option is_healthy
       (fst (get_session 1000 (always (ex_old [''s1''] 9))
          (run [Acquire (ex_new ''s1'' 1 0), Release ''s1'' True,
                Acquire (ex_old [''s1''] 5), Release ''s1'' True]
             (SessionPool_init [(''max_errors_per_session'', 2)])))) = Some True"
  by code_simp

text \<open>
  C2 (amended). The pool reads no error budget from its configuration. After any history
  and whatever the configuration holds, every session in the pool carries
  \<^verbatim>\<open>max_errors = 5\<close>, so it is unhealthy iff its error count is at least 5; and a session
  returned by \<^verbatim>\<open>get_session\<close> has an error count below 5.
\<close>

theorem C2_error_budget_is_five:
  "(\<forall>(k, s) \<in> set (sessions (run evs (SessionPool_init cfg))).
       max_errors s = 5 \<and> (is_healthy s \<longleftrightarrow> error_count s < 5))
   \<and> (fst (get_session timeout env (run evs (SessionPool_init cfg))) = Some s'
        \<longrightarrow> max_errors s' = 5 \<and> error_count s' < 5)"
proof -
  let ?p = "run evs (SessionPool_init cfg)"
  have inv: "budget_inv ?p" by (simp add: budget_run budget_init)
  then have a: "\<forall>(k, s) \<in> set (sessions ?p). max_errors s = 5 \<and> (is_healthy s \<longleftrightarrow> error_count s < 5)"
    by (auto simp: budget_inv_def is_healthy_def)
  have b: "max_errors s' = 5 \<and> error_count s' < 5" if g: "fst (get_session timeout env ?p) = Some s'"
  proof -
    from get_session_Some_attempt [OF g] inv obtain j q p'
      where att: "get_session_attempt (env j) q = (Some s', p')" and q: "budget_inv q" by blast
    from attempt_Some_budget [OF att q] attempt_Some_healthy [OF att]
    show ?thesis by (simp add: is_healthy_def)
  qed
  from a b show ?thesis by blast
qed

text \<open>
  The session handed out under a configured budget of 2 carries the budget 5.
\<close>

theorem C2_error_budget_is_five_witness:
  "map_option max_errors
       (fst (get_session 1000 (always (ex_old [''s1''] 9))
          (run [Acquire (ex_new ''s1'' 1 0), Release ''s1'' True]
             (SessionPool_init [(''max_errors_per_session'', 2)])))) = Some 5"
proof -
  let ?p = "run [Acquire (ex_new ''s1'' 1 0), Release ''s1'' True]
             (SessionPool_init [(''max_errors_per_session'', 2)])"
  have "fst (get_session 1000 (always (ex_old [''s1''] 9)) ?p) \<noteq> None"
    by code_simp
  then obtain s where g: "fst (get_session 1000 (always (ex_old [''s1''] 9)) ?p) = Some s"
    by blast
  from C2_error_budget_is_five [of "[Acquire (ex_new ''s1'' 1 0), Release ''s1'' True]"
         "[(''max_errors_per_session'', 2)]" 1000 "always (ex_old [''s1''] 9)" s] g
  show ?thesis by simp
qed

text \<open>
  C3. When the configured minimum size does not exceed the maximum size, then after any
  sequence of acquire passes, releases, janitor cleanups and refills (and shutdowns) from
  the freshly constructed pool, the dictionary of live sessions has at most
  \<^verbatim>\<open>max_pool_size\<close> entries; its keys are distinct, so its length is the number of
  live sessions.
\<close>

theorem C3_size_bound:
  assumes "min_pool_size (SessionPool_init cfg) \<le> max_pool_size (SessionPool_init cfg)"
  shows "length (sessions (run evs (SessionPool_init cfg))) \<le> max_pool_size (run evs (SessionPool_init cfg))
         \<and> distinct (map fst (sessions (run evs (SessionPool_init cfg))))"
proof -
  have "length (sessions (SessionPool_init cfg)) \<le> max_pool_size (SessionPool_init cfg)"
    by (simp add: SessionPool_init_def)
  from run_size [OF assms this, of evs] keys_run [OF keys_init, of evs cfg]
  show ?thesis by (simp add: keys_distinct_def)
qed

text \<open>
  A pool of size one: the second acquire and the refill add nothing.
\<close>

theorem C3_size_bound_witness:
  "min_pool_size (SessionPool_init [(''max_pool_size'', 1), (''min_pool_size'', 1)])
     \<le> max_pool_size (SessionPool_init [(''max_pool_size'', 1), (''min_pool_size'', 1)])
   \<and> length (sessions (run [Acquire (ex_new ''s1'' 1 0), Acquire (ex_new ''s2'' 2 1),
                             Maintain (always None), Release ''s1'' False]
                        (SessionPool_init [(''max_pool_size'', 1), (''min_pool_size'', 1)])))
     \<le> max_pool_size (run [Acquire (ex_new ''s1'' 1 0), Acquire (ex_new ''s2'' 2 1),
                             Maintain (always None), Release ''s1'' False]
                        (SessionPool_init [(''max_pool_size'', 1), (''min_pool_size'', 1)]))"
proof -
  have h: "min_pool_size (SessionPool_init [(''max_pool_size'', 1), (''min_pool_size'', 1)])
           \<le> max_pool_size (SessionPool_init [(''max_pool_size'', 1), (''min_pool_size'', 1)])"
    by (simp add: SessionPool_init_def config_get_def)
  from h C3_size_bound [OF h] show ?thesis by blast
qed




text \<open>
  C5 (as stated: after shutdown an acquire fails fast, creates no session and returns none).
  After \<^verbatim>\<open>shutdown\<close> the flag is set and the pool is empty, and \<^verbatim>\<open>get_session\<close> then
  creates the session \<open>s9\<close>, stores it and returns it.
\<close>

theorem C5_acquire_after_shutdown_counterexample:
  "shutdown_event (shutdown (run [Acquire (ex_new ''s1'' 1 0)] (SessionPool_init [])))
   \<and> sessions (shutdown (run [Acquire (ex_new ''s1'' 1 0)] (SessionPool_init []))) = []
   \<and> map_option session_id
        (fst (get_session 30000 (always (ex_new ''s9'' 9 50))
           (shutdown (run [Acquire (ex_new ''s1'' 1 0)] (SessionPool_init []))))) = Some ''s9''
   \<and> map fst (sessions (snd (get_session 30000 (always (ex_new ''s9'' 9 50))
           (shutdown (run [Acquire (ex_new ''s1'' 1 0)] (SessionPool_init [])))))) = [''s9'']"
  by code_simp

text \<open>
  C5 (amended). \<^verbatim>\<open>shutdown\<close> sets the flag and retires every session, but
  \<^verbatim>\<open>get_session\<close> never reads the flag: called afterwards with a positive timeout and a
  positive \<^verbatim>\<open>max_pool_size\<close>, it creates a new session in its first pass when
  \<^verbatim>\<open>create_browser\<close> succeeds, stores it and returns it busy; it returns \<^verbatim>\<open>None\<close>,
  with the pool still empty, when \<^verbatim>\<open>max_pool_size\<close> is 0 or every creation fails.
\<close>

theorem C5_shutdown_drains_but_acquire_creates:
  "sessions (shutdown p) = [] \<and> shutdown_event (shutdown p)
   \<and> (0 < timeout \<and> 0 < max_pool_size p \<and> create_session (creation_outcome (env 0)) = Some s
        \<longrightarrow> get_session timeout env (shutdown p)
              = (Some (mark_used (clock (env 0)) (s\<lparr>is_busy := True\<rparr>)),
                 (shutdown p)\<lparr>sessions := [(session_id s, mark_used (clock (env 0)) (s\<lparr>is_busy := True\<rparr>))]\<rparr>))
   \<and> ((max_pool_size p = 0 \<or> (\<forall>k. creation_outcome (env k) = None))
        \<longrightarrow> get_session timeout env (shutdown p) = (None, shutdown p))"
proof -
  have d: "sessions (shutdown p) = []" "shutdown_event (shutdown p)"
    using shutdown_drains [of p] by simp_all
  have f: "find_available order [] = None" for order
    by (induction order) simp_all
  have c: "get_session timeout env (shutdown p)
              = (Some (mark_used (clock (env 0)) (s\<lparr>is_busy := True\<rparr>)),
                 (shutdown p)\<lparr>sessions := [(session_id s, mark_used (clock (env 0)) (s\<lparr>is_busy := True\<rparr>))]\<rparr>)"
    if t: "0 < timeout" and m: "0 < max_pool_size p"
      and cr: "create_session (creation_outcome (env 0)) = Some s"
  proof -
    have "get_session_attempt (env 0) (shutdown p)
          = (Some (mark_used (clock (env 0)) (s\<lparr>is_busy := True\<rparr>)),
             (shutdown p)\<lparr>sessions := [(session_id s, mark_used (clock (env 0)) (s\<lparr>is_busy := True\<rparr>))]\<rparr>)"
      using d f m cr by (simp add: get_session_attempt_def Let_def shutdown_frame)
    with t show ?thesis by (rule get_session_first)
  qed
  have n: "get_session timeout env (shutdown p) = (None, shutdown p)"
    if "max_pool_size p = 0 \<or> (\<forall>k. creation_outcome (env k) = None)"
  proof -
    have att: "get_session_attempt (env k) (shutdown p) = (None, shutdown p)" for k
      using that d f by (auto simp: get_session_attempt_def Let_def shutdown_frame create_session_def)
    from loop_all_fail [of env "shutdown p" timeout 0 0, OF att]
    show ?thesis by (simp add: get_session_def)
  qed
  from d c n show ?thesis by blast
qed

text \<open>
  Both cases after a shutdown: the default pool creates \<open>s9\<close>, a pool of maximum size 0
  returns \<^verbatim>\<open>None\<close>.
\<close>

theorem C5_shutdown_drains_but_acquire_creates_witness:
  "0 < (30000::int) \<and> 0 < max_pool_size (run [Acquire (ex_new ''s1'' 1 0)] (SessionPool_init []))
   \<and> map_option session_id
        (fst (get_session 30000 (always (ex_new ''s9'' 9 50))
           (shutdown (run [Acquire (ex_new ''s1'' 1 0)] (SessionPool_init []))))) = Some ''s9''
   \<and> get_session 30000 (always (ex_old [] 50))
           (shutdown (run [Acquire (ex_new ''s1'' 1 0)] (SessionPool_init [(''max_pool_size'', 0)])))
      = (None, shutdown (run [Acquire (ex_new ''s1'' 1 0)] (SessionPool_init [(''max_pool_size'', 0)])))"
proof -
  let ?p = "run [Acquire (ex_new ''s1'' 1 0)] (SessionPool_init [])"
  let ?q = "run [Acquire (ex_new ''s1'' 1 0)] (SessionPool_init [(''max_pool_size'', 0)])"
  let ?e = "always (ex_new ''s9'' 9 50)"
  let ?s = "BrowserSession_new ''s9'' 9 [] 50 50"
  have m: "0 < max_pool_size ?p" by code_simp
  have c: "create_session (creation_outcome (?e 0)) = Some ?s" by code_simp
  have z: "max_pool_size ?q = 0" by code_simp
  from C5_shutdown_drains_but_acquire_creates [of ?p 30000 ?e ?s] m c
  have 1: "map_option session_id (fst (get_session 30000 ?e (shutdown ?p))) = Some ''s9''"
    by (simp add: mark_used_def BrowserSession_new_def)
  from C5_shutdown_drains_but_acquire_creates [of ?q 30000 "always (ex_old [] 50)" ?s] z
  have 2: "get_session 30000 (always (ex_old [] 50)) (shutdown ?q) = (None, shutdown ?q)" by simp
  from m 1 2 show ?thesis by simp
qed

text \<open>
  C8. In a pool state where the sessions of the available set are idle, and in which some
  healthy session is available, an acquire with a positive timeout returns an available
  session, marked busy and used; releasing it with \<^verbatim>\<open>had_error = False\<close> gives back the
  initial pool with only \<^verbatim>\<open>last_used\<close> and \<^verbatim>\<open>usage_count\<close> of that session changed:
  the same dictionary otherwise, the same available set, the same busy flags and error counts.
\<close>

theorem C8_acquire_release_round_trip:
  assumes "idle_inv p"
    and "set (iteration (env 0)) = available_sessions p"
    and "0 < timeout"
    and "sid \<in> available_sessions p" "map_of (sessions p) sid = Some s" "is_healthy s"
  shows "case get_session timeout env p of
           (None, p1) \<Rightarrow> False
         | (Some s1, p1) \<Rightarrow>
             session_id s1 \<in> available_sessions p
             \<and> (\<exists>s0. map_of (sessions p) (session_id s1) = Some s0
                     \<and> s1 = mark_used (clock (env 0)) (s0\<lparr>is_busy := True\<rparr>)
                     \<and> return_session (session_id s1) False p1
                        = p\<lparr>sessions := AList.update (session_id s1)
                                          (mark_used (clock (env 0)) s0) (sessions p)\<rparr>)
             \<and> external (return_session (session_id s1) False p1) = external p"
  using assms by (rule acquire_release_round_trip)

text \<open>
  A pool with one idle and one leased session.
\<close>

theorem C8_acquire_release_round_trip_witness:
  "idle_inv (run [Acquire (ex_new ''s1'' 1 0), Release ''s1'' False, Acquire (ex_new ''s2'' 2 3)]
               (SessionPool_init []))
   \<and> external (return_session ''s1'' False
        (snd (get_session 1000 (always (ex_old [''s1''] 5))
           (run [Acquire (ex_new ''s1'' 1 0), Release ''s1'' False, Acquire (ex_new ''s2'' 2 3)]
              (SessionPool_init [])))))
     = external (run [Acquire (ex_new ''s1'' 1 0), Release ''s1'' False, Acquire (ex_new ''s2'' 2 3)]
              (SessionPool_init []))"
proof -
  let ?p = "run [Acquire (ex_new ''s1'' 1 0), Release ''s1'' False, Acquire (ex_new ''s2'' 2 3)]
              (SessionPool_init [])"
  let ?e = "always (ex_old [''s1''] 5)"
  let ?s = "(BrowserSession_new ''s1'' 1 [] 0 0)\<lparr>usage_count := 1\<rparr>"
  have 1: "idle_inv ?p" by code_simp
  have 2: "set (iteration (?e 0)) = available_sessions ?p" by code_simp
  have 3: "0 < (1000::int)" by simp
  have 4: "''s1'' \<in> available_sessions ?p" by code_simp
  have 5: "map_of (sessions ?p) ''s1'' = Some ?s" by code_simp
  have 6: "is_healthy ?s" by code_simp
  have g: "map_option session_id (fst (get_session 1000 ?e ?p)) = Some ''s1''" by code_simp
  from C8_acquire_release_round_trip [of ?p ?e 1000 "''s1''" ?s, OF 1 2 3 4 5 6] g 1
  show ?thesis by (auto split: prod.splits option.splits)
qed

section \<open>Properties of the timing primitives\<close>






section \<open>Properties of the concurrent dispatch\<close>







end
